theory Spec2Isabelle
  imports Main "HOL-Library.Sublist"
begin

section \<open>Data model (main.go, lines 18--41)\<close>

text \<open>
  A Go \<open>string\<close> is a sequence of bytes and \<open>len\<close> counts bytes, so a string is a
  \<^typ>\<open>string\<close> (a list of 8-bit characters) and \<open>len\<close> is \<^const>\<open>length\<close>.
  The compiled trigger pattern \<open>*regexp.Regexp\<close> is used through \<open>MatchString\<close> only:
  it is its match predicate, and \<open>nil\<close> is \<^const>\<open>None\<close>.
\<close>

record Config =
  Server :: string
  Port :: string
  Channel :: string
  Nick :: string
  BotName :: string
  Persona :: string
  TriggerPattern :: "(string \<Rightarrow> bool) option"

record Message =
  Role :: string
  Content :: string

text \<open>
  The fields \<open>connection\<close> and \<open>client\<close> of \<open>IRCBot\<close> are handles of the IRC and HTTP
  libraries. What the bot does through them is returned as a list of effects, and
  what the HTTP client answers is a parameter of the functions that call it.
\<close>

record IRCBot =
  config :: Config
  bot_context :: "Message list"

section \<open>The context buffer\<close>

text \<open>\<open>NewIRCBot\<close> (lines 44--70): the context starts empty, or with the persona.\<close>

definition NewIRCBot :: "Config \<Rightarrow> IRCBot" where
  "NewIRCBot cfg =
     \<lparr>config = cfg,
      bot_context =
        (if Persona cfg \<noteq> [] then [] @ [\<lparr>Role = ''system'', Content = Persona cfg\<rparr>]
         else [])\<rparr>"

text \<open>
  \<open>addToContext\<close> (lines 283--292) on the context slice. The slice expression
  \<open>c[len(c)-18:]\<close> is \<^term>\<open>drop (length c - 18) c\<close>; it and \<open>c[0]\<close> are evaluated only
  when \<open>len(c) > 19\<close>, where both are in range.
\<close>

definition addToContext :: "Message list \<Rightarrow> Message \<Rightarrow> Message list" where
  "addToContext ctx message =
     (let c = ctx @ [message]
      in if length c > 19
         then (let systemMsg = c ! 0 in [systemMsg] @ drop (length c - 18) c)
         else c)"

text \<open>A sequence of appends, one at a time.\<close>

definition appends :: "Message list \<Rightarrow> Message list \<Rightarrow> Message list" where
  "appends ctx ms = foldl addToContext ctx ms"

section \<open>Text helpers of the Go library\<close>

text \<open>
  The functions of \<open>strings\<close>, \<open>unicode\<close>, \<open>regexp\<close> and \<open>net/url\<close> that the bot calls.
  \<open>strings.ToLower\<close> and \<open>strings.Fields\<close> are given on ASCII text: \<open>ToLower\<close> maps
  \<open>A\<close>--\<open>Z\<close> to \<open>a\<close>--\<open>z\<close> and \<open>Fields\<close> splits at the six ASCII characters of
  \<open>unicode.IsSpace\<close> (on other text Go also lowers the capitals outside ASCII and
  splits at the other Unicode spaces). The class \<open>\s\<close> of Go regular expressions is
  \<open>[\t\n\f\r ]\<close>, without the vertical tab.
\<close>

definition isSpace :: "char \<Rightarrow> bool" where
  "isSpace c = (c = CHR 0x09 \<or> c = CHR 0x0A \<or> c = CHR 0x0B \<or> c = CHR 0x0C \<or> c = CHR 0x0D
     \<or> c = CHR '' '')"

definition isSpaceRE :: "char \<Rightarrow> bool" where
  "isSpaceRE c = (c = CHR 0x09 \<or> c = CHR 0x0A \<or> c = CHR 0x0C \<or> c = CHR 0x0D \<or> c = CHR '' '')"

definition toLowerByte :: "char \<Rightarrow> char" where
  "toLowerByte c =
     (let n = (of_char c :: nat) in if 65 \<le> n \<and> n \<le> 90 then char_of (n + 32) else c)"

definition ToLower :: "string \<Rightarrow> string" where
  "ToLower s = map toLowerByte s"

text \<open>\<open>strings.Contains(s, substr)\<close>: \<open>substr\<close> occurs in \<open>s\<close> at some index.\<close>

fun Contains :: "string \<Rightarrow> string \<Rightarrow> bool" where
  "Contains [] substr = (substr = [])"
| "Contains (c # cs) substr = (prefix substr (c # cs) \<or> Contains cs substr)"

text \<open>
  \<open>strings.TrimSpace\<close> and the regexp engine read a string rune by rune with
  \<open>utf8.DecodeRuneInString\<close>, which returns the rune (an \<open>int32\<close>) and its width in
  bytes: a byte below \<open>0x80\<close> is itself, a lead byte \<open>0xC2\<close>--\<open>0xF4\<close> followed by the
  continuation bytes its range accepts is the encoded rune, and any other byte is
  \<open>RuneError\<close> (U+FFFD) of width 1. A token is a rune with the bytes it was read from.
\<close>

type_synonym token = "int \<times> string"
type_synonym foldTable = "int \<Rightarrow> int \<Rightarrow> bool"

definition RuneError :: int where
  "RuneError = 0xFFFD"

definition runeSize :: "int \<Rightarrow> nat" where
  "runeSize s0 = (if s0 < 0xE0 then 2 else if s0 < 0xF0 then 3 else 4)"

definition acceptLo :: "int \<Rightarrow> int" where
  "acceptLo s0 = (if s0 = 0xE0 then 0xA0 else if s0 = 0xF0 then 0x90 else 0x80)"

definition acceptHi :: "int \<Rightarrow> int" where
  "acceptHi s0 = (if s0 = 0xED then 0x9F else if s0 = 0xF4 then 0x8F else 0xBF)"

definition byteAt :: "string \<Rightarrow> nat \<Rightarrow> int" where
  "byteAt s i = of_char (s ! i)"

fun DecodeRune :: "string \<Rightarrow> int \<times> nat" where
  "DecodeRune [] = (RuneError, 0)"
| "DecodeRune (c # cs) =
     (let s = c # cs; s0 = byteAt s 0; sz = runeSize s0
      in if s0 < 0x80 then (s0, 1)
         else if s0 < 0xC2 \<or> 0xF4 < s0 then (RuneError, 1)
         else if length s < sz then (RuneError, 1)
         else if byteAt s 1 < acceptLo s0 \<or> acceptHi s0 < byteAt s 1 then (RuneError, 1)
         else if sz \<le> 2 then ((s0 mod 0x20) * 0x40 + byteAt s 1 mod 0x40, 2)
         else if byteAt s 2 < 0x80 \<or> 0xBF < byteAt s 2 then (RuneError, 1)
         else if sz \<le> 3
         then ((s0 mod 0x10) * 0x1000 + (byteAt s 1 mod 0x40) * 0x40 + byteAt s 2 mod 0x40, 3)
         else if byteAt s 3 < 0x80 \<or> 0xBF < byteAt s 3 then (RuneError, 1)
         else ((s0 mod 8) * 0x40000 + (byteAt s 1 mod 0x40) * 0x1000
               + (byteAt s 2 mod 0x40) * 0x40 + byteAt s 3 mod 0x40, 4))"

function runes :: "string \<Rightarrow> token list" where
  "runes [] = []"
| "runes (c # cs) =
     (case DecodeRune (c # cs) of
        (r, w) \<Rightarrow> (r, c # take (w - 1) cs) # runes (drop (w - 1) cs))"
  by pat_completeness auto
termination
  by (relation "measure length") simp_all

text \<open>
  The parser of \<open>regexp\<close> rejects a pattern in which a byte decodes to \<open>RuneError\<close> of
  width 1 (invalid UTF-8).
\<close>

definition validPattern :: "string \<Rightarrow> bool" where
  "validPattern s = list_all (\<lambda>t. \<not> (fst t = RuneError \<and> length (snd t) = 1)) (runes s)"

text \<open>
  \<open>unicode.IsSpace\<close> on a rune, and \<open>strings.TrimSpace\<close>: the string without the
  spaces at its start, read forwards, and at its end, read backwards with
  \<open>utf8.DecodeLastRuneInString\<close>. A rune starts at every byte that is not a
  continuation byte, so reading backwards meets the same runes as reading forwards.
\<close>

definition IsSpace :: "int \<Rightarrow> bool" where
  "IsSpace r =
     ((0x09 \<le> r \<and> r \<le> 0x0D) \<or> r = 0x20 \<or> r = 0x85 \<or> r = 0xA0 \<or> r = 0x1680
      \<or> (0x2000 \<le> r \<and> r \<le> 0x200A) \<or> r = 0x2028 \<or> r = 0x2029 \<or> r = 0x202F \<or> r = 0x205F
      \<or> r = 0x3000)"

definition spaceToken :: "token \<Rightarrow> bool" where
  "spaceToken t = IsSpace (fst t)"

definition TrimSpace :: "string \<Rightarrow> string" where
  "TrimSpace s = concat (map snd (rev (dropWhile spaceToken (rev (dropWhile spaceToken (runes s))))))"

text \<open>
  \<open>strings.Fields\<close>: the maximal runs of non-space characters, in order; \<open>w\<close> is the
  field being read.
\<close>

fun fieldsFrom :: "string \<Rightarrow> string \<Rightarrow> string list" where
  "fieldsFrom w [] = (if w = [] then [] else [w])"
| "fieldsFrom w (c # cs) =
     (if isSpace c then (if w = [] then fieldsFrom [] cs else w # fieldsFrom [] cs)
      else fieldsFrom (w @ [c]) cs)"

definition Fields :: "string \<Rightarrow> string list" where
  "Fields s = fieldsFrom [] s"

text \<open>
  \<open>url.QueryEscape\<close>: letters, digits and \<open>-_.~\<close> stay, a space becomes \<open>+\<close>, every
  other byte becomes \<open>%XX\<close> in upper-case hexadecimal.
\<close>

definition unreserved :: "char \<Rightarrow> bool" where
  "unreserved c =
     (let n = (of_char c :: nat)
      in (97 \<le> n \<and> n \<le> 122) \<or> (65 \<le> n \<and> n \<le> 90) \<or> (48 \<le> n \<and> n \<le> 57)
         \<or> c = CHR ''-'' \<or> c = CHR ''_'' \<or> c = CHR ''.'' \<or> c = CHR ''~'')"

definition upperhex :: "nat \<Rightarrow> char" where
  "upperhex d = ''0123456789ABCDEF'' ! d"

definition escapeByte :: "char \<Rightarrow> string" where
  "escapeByte c =
     (if unreserved c then [c]
      else if c = CHR '' '' then ''+''
      else [CHR ''%'', upperhex ((of_char c :: nat) div 16), upperhex ((of_char c :: nat) mod 16)])"

definition QueryEscape :: "string \<Rightarrow> string" where
  "QueryEscape s = concat (map escapeByte s)"

section \<open>Trigger decision and message cleaning\<close>

text \<open>\<open>shouldRespondToMessage\<close> (lines 159--171).\<close>

definition shouldRespondToMessage :: "Config \<Rightarrow> string \<Rightarrow> bool" where
  "shouldRespondToMessage cfg message =
     (if Contains (ToLower message) (ToLower (Nick cfg)) then True
      else (case TriggerPattern cfg of Some pat \<Rightarrow> pat message | None \<Rightarrow> False))"

text \<open>
  Under \<open>(?i)\<close> a literal rune \<open>p\<close> of the pattern matches a rune \<open>r\<close> of the text when \<open>r\<close>
  is in the orbit of \<open>p\<close> under \<open>unicode.SimpleFold\<close>. Two ASCII runes are in one orbit
  when they are the two cases of a letter; the orbits that reach outside ASCII are
  the table of the \<open>unicode\<close> package, the parameter \<open>orbit\<close>.
\<close>

definition lowerRune :: "int \<Rightarrow> int" where
  "lowerRune r = (if 65 \<le> r \<and> r \<le> 90 then r + 32 else r)"

definition foldEq :: "foldTable \<Rightarrow> int \<Rightarrow> int \<Rightarrow> bool" where
  "foldEq orbit p r =
     (p = r \<or> (p < 0x80 \<and> r < 0x80 \<and> lowerRune p = lowerRune r)
      \<or> ((0x80 \<le> p \<or> 0x80 \<le> r) \<and> orbit p r))"

text \<open>
  The pattern of \<open>cleanMessage\<close> is the quoted nick under \<open>(?i)\<close>, one of \<open>,\<close> and \<open>:\<close>, and
  \<open>\s*\<close>, which is greedy. \<open>matchMention orbit nick ts\<close> is what follows the match when
  the pattern, with the runes \<open>nick\<close>, matches at the start of the tokens \<open>ts\<close>. A match
  is never empty, so \<open>ReplaceAllString(message, "")\<close> reads the text from the left rune
  by rune, deletes the match that starts at the current rune if there is one and
  goes on behind it, and copies the bytes of every other rune.
\<close>

definition reSpaceToken :: "token \<Rightarrow> bool" where
  "reSpaceToken t = (fst t = 0x09 \<or> fst t = 0x0A \<or> fst t = 0x0C \<or> fst t = 0x0D \<or> fst t = 0x20)"

definition matchMention :: "foldTable \<Rightarrow> int list \<Rightarrow> token list \<Rightarrow> token list option" where
  "matchMention orbit nick ts =
     (let n = length nick
      in if n < length ts \<and> list_all2 (foldEq orbit) nick (map fst (take n ts))
            \<and> (fst (ts ! n) = 0x2C \<or> fst (ts ! n) = 0x3A)
         then Some (dropWhile reSpaceToken (drop (n + 1) ts))
         else None)"

function removeMentions :: "foldTable \<Rightarrow> int list \<Rightarrow> token list \<Rightarrow> string" where
  "removeMentions orbit nick [] = []"
| "removeMentions orbit nick (t # ts) =
     (case matchMention orbit nick (t # ts) of
        Some rest \<Rightarrow> removeMentions orbit nick rest
      | None \<Rightarrow> snd t @ removeMentions orbit nick ts)"
  by pat_completeness auto
termination
proof (relation "measure (\<lambda>(orbit, nick, ts). length ts)")
  fix orbit :: foldTable and nick :: "int list" and t :: token and ts rest :: "token list"
  assume "matchMention orbit nick (t # ts) = Some rest"
  then have r: "rest = dropWhile reSpaceToken (drop (length nick + 1) (t # ts))"
    and n: "length nick < length (t # ts)"
    by (auto simp: matchMention_def Let_def split: if_splits)
  have "length rest \<le> length (drop (length nick + 1) (t # ts))"
    unfolding r by (rule length_dropWhile_le)
  with n show "((orbit, nick, rest), (orbit, nick, t # ts)) \<in> measure (\<lambda>(orbit, nick, ts). length ts)"
    by simp
qed simp_all

text \<open>
  The panics of the handler: \<open>e.Arguments[0]\<close> on an event without arguments, and
  \<open>regexp.MustCompile\<close> on a pattern that is not valid UTF-8.
\<close>

datatype panic = IndexOutOfRange | InvalidUTF8

text \<open>
  \<open>cleanMessage\<close> (lines 174--184). \<open>regexp.QuoteMeta\<close> makes every nick a literal
  pattern and leaves the bytes outside ASCII as they are.
\<close>

definition cleanMessage :: "foldTable \<Rightarrow> Config \<Rightarrow> string \<Rightarrow> panic + string" where
  "cleanMessage orbit cfg message =
     (if \<not> validPattern (Nick cfg) then Inl InvalidUTF8
      else (let cleanMsg = removeMentions orbit (map fst (runes (Nick cfg))) (runes message);
                cleanMsg = TrimSpace cleanMsg
            in if cleanMsg = [] then Inr ''Hello!'' else Inr cleanMsg))"

section \<open>Prompt, generator call and sanitising\<close>

text \<open>
  \<open>buildPrompt\<close> (lines 238--260). The loop writes to the builder \<open>b\<close>; a role that is
  none of the three cases of the \<open>switch\<close> writes nothing. The method reads
  \<open>bot.context\<close> and assigns no field of the bot, so it is a function of the context.
\<close>

fun buildPrompt_loop :: "Message list \<Rightarrow> string \<Rightarrow> string" where
  "buildPrompt_loop [] b = b"
| "buildPrompt_loop (msg # rest) b =
     buildPrompt_loop rest
       (if Role msg = ''system'' then b @ ''System: '' @ Content msg @ [CHR 0x0A]
        else if Role msg = ''user'' then b @ ''User: '' @ Content msg @ [CHR 0x0A]
        else if Role msg = ''assistant'' then b @ ''Assistant: '' @ Content msg @ [CHR 0x0A]
        else b)"

definition buildPrompt :: "Message list \<Rightarrow> string" where
  "buildPrompt ctx = buildPrompt_loop ctx [] @ ''Assistant: ''"

text \<open>
  \<open>cleanAIResponse\<close> (lines 263--280). \<open><[^>]*>\<close> matches at a \<open><\<close> that has a \<open>>\<close>
  somewhere behind it, up to the first such \<open>>\<close>; \<open>\s+\<close> matches a maximal run.
\<close>

fun stripPrefixes :: "string list \<Rightarrow> string \<Rightarrow> string" where
  "stripPrefixes [] response = response"
| "stripPrefixes (p # ps) response =
     (if prefix p response then drop (length p) response else stripPrefixes ps response)"

function stripTags :: "string \<Rightarrow> string" where
  "stripTags [] = []"
| "stripTags (c # cs) =
     (if c = CHR ''<'' \<and> CHR ''>'' \<in> set cs
      then stripTags (tl (dropWhile (\<lambda>d. d \<noteq> CHR ''>'') cs))
      else c # stripTags cs)"
  by pat_completeness auto
termination
proof (relation "measure length")
  fix c :: char and cs :: string
  have "length (tl (dropWhile (\<lambda>d. d \<noteq> CHR ''>'') cs)) \<le> length (dropWhile (\<lambda>d. d \<noteq> CHR ''>'') cs)"
    by simp
  also have "\<dots> \<le> length cs"
    by (rule length_dropWhile_le)
  finally show "(tl (dropWhile (\<lambda>d. d \<noteq> CHR ''>'') cs), c # cs) \<in> measure length"
    by simp
qed simp_all

function collapseSpace :: "string \<Rightarrow> string" where
  "collapseSpace [] = []"
| "collapseSpace (c # cs) =
     (if isSpaceRE c then CHR '' '' # collapseSpace (dropWhile isSpaceRE cs)
      else c # collapseSpace cs)"
  by pat_completeness auto
termination
proof (relation "measure length")
  fix c :: char and cs :: string
  have "length (dropWhile isSpaceRE cs) \<le> length cs"
    by (rule length_dropWhile_le)
  then show "(dropWhile isSpaceRE cs, c # cs) \<in> measure length"
    by simp
qed simp_all

definition cleanAIResponse :: "string \<Rightarrow> string" where
  "cleanAIResponse response =
     (let response = stripPrefixes [''Assistant: '', ''Bot: '', ''AI: ''] response;
          response = stripTags response;
          response = collapseSpace response
      in TrimSpace response)"

section \<open>Sending a response\<close>

text \<open>
  What the bot does to the outside: a GET request of the HTTP client, and
  \<open>connection.Privmsg(target, text)\<close>. The pauses of \<open>time.Sleep\<close> between two lines,
  the log lines and the body printed to standard output change nothing the bot reads
  and are left out.
\<close>

datatype effect = HttpGet string | Privmsg string string

text \<open>
  \<open>regexp.MustCompile(`[.!?]+\s+`).Split(response, -1)\<close>. Both \<open>+\<close> are greedy and the
  two classes are disjoint, so the leftmost match starts at the first terminator of a
  run of terminators that whitespace follows, and ends behind that whitespace.
  \<open>Split\<close> returns the pieces between the matches, the piece behind the last match
  included, and \<open>[""]\<close> on the empty string. \<open>piece\<close> is the piece being read.
\<close>

definition isTerminator :: "char \<Rightarrow> bool" where
  "isTerminator c = (c = CHR ''.'' \<or> c = CHR ''!'' \<or> c = CHR ''?'')"

function splitFrom :: "string \<Rightarrow> string \<Rightarrow> string list" where
  "splitFrom piece [] = [piece]"
| "splitFrom piece (c # cs) =
     (if isTerminator c \<and> takeWhile isSpaceRE (dropWhile isTerminator cs) \<noteq> []
      then piece # splitFrom [] (dropWhile isSpaceRE (dropWhile isTerminator cs))
      else splitFrom (piece @ [c]) cs)"
  by pat_completeness auto
termination
proof (relation "measure (\<lambda>(piece, s). length s)")
  fix piece :: string and c :: char and cs :: string
  have "length (dropWhile isSpaceRE (dropWhile isTerminator cs)) \<le> length (dropWhile isTerminator cs)"
    by (rule length_dropWhile_le)
  also have "\<dots> \<le> length cs"
    by (rule length_dropWhile_le)
  finally show "(([], dropWhile isSpaceRE (dropWhile isTerminator cs)), (piece, c # cs))
      \<in> measure (\<lambda>(piece, s). length s)"
    by simp
qed simp_all

definition Split :: "string \<Rightarrow> string list" where
  "Split s = splitFrom [] s"

text \<open>
  The inner loop of \<open>sendResponse\<close> over the words of one sentence (lines 324--337)
  and the outer loop over the sentences (lines 308--342). The state of both is
  \<open>currentMsg\<close> and the lines sent so far; \<open>maxLength\<close> is a Go \<open>int\<close>.
\<close>

fun wordsLoop :: "int \<Rightarrow> string list \<Rightarrow> string \<Rightarrow> string list \<Rightarrow> string \<times> string list" where
  "wordsLoop maxLength [] currentMsg sent = (currentMsg, sent)"
| "wordsLoop maxLength (word # words) currentMsg sent =
     (if int (length currentMsg) + int (length word) + 1 \<le> maxLength
      then wordsLoop maxLength words
             ((if currentMsg \<noteq> [] then currentMsg @ '' '' else currentMsg) @ word) sent
      else wordsLoop maxLength words word
             (if currentMsg \<noteq> [] then sent @ [currentMsg] else sent))"

fun sentencesLoop :: "int \<Rightarrow> string list \<Rightarrow> string \<Rightarrow> string list \<Rightarrow> string \<times> string list" where
  "sentencesLoop maxLength [] currentMsg sent = (currentMsg, sent)"
| "sentencesLoop maxLength (sentence # sentences) currentMsg sent =
     (if int (length currentMsg) + int (length sentence) + 1 \<le> maxLength
      then sentencesLoop maxLength sentences
             ((if currentMsg \<noteq> [] then currentMsg @ '' '' else currentMsg) @ sentence) sent
      else (let sent = (if currentMsg \<noteq> [] then sent @ [currentMsg] else sent)
            in if int (length sentence) > maxLength
               then (case wordsLoop maxLength (Fields sentence) [] sent of
                       (currentMsg, sent) \<Rightarrow> sentencesLoop maxLength sentences currentMsg sent)
               else sentencesLoop maxLength sentences sentence sent))"

text \<open>
  The chunks \<open>sendResponse\<close> sends for a response, with the length budget as a
  parameter: the \<open>segment(text, maxLen)\<close> of the specification.
\<close>

definition segment :: "string \<Rightarrow> int \<Rightarrow> string list" where
  "segment response maxLength =
     (if int (length response) \<le> maxLength then [response]
      else (case sentencesLoop maxLength (Split response) [] [] of
              (currentMsg, sent) \<Rightarrow> if currentMsg \<noteq> [] then sent @ [currentMsg] else sent))"

text \<open>\<open>sendResponse\<close> (lines 295--347), where \<open>maxLength := 400\<close>.\<close>

definition sendResponse :: "string \<Rightarrow> string \<Rightarrow> effect list" where
  "sendResponse target response = map (Privmsg target) (segment response 400)"

section \<open>The round trip and the message handler\<close>

text \<open>
  The answer of \<open>bot.client.Get(apiUrl)\<close>: an error, or a response with its status
  code, the body \<open>io.ReadAll\<close> returns and the error of \<open>io.ReadAll\<close>, if any.
\<close>

datatype http_result = GetError string | Response int string "string option"

text \<open>The three errors \<open>getAIResponse\<close> returns, with what \<open>fmt.Errorf\<close> formats into them.\<close>

datatype error = RequestFailed string | StatusFailed int string | ReadFailed string

text \<open>\<open>getAIResponse\<close> (lines 187--235): the bot afterwards, the effects, the result.\<close>

definition apiUrl :: "string \<Rightarrow> string" where
  "apiUrl prompt = ''https://text.pollinations.ai/'' @ QueryEscape prompt"

definition getAIResponse ::
  "(string \<Rightarrow> http_result) \<Rightarrow> IRCBot \<Rightarrow> string \<Rightarrow> string \<Rightarrow> IRCBot \<times> effect list \<times> (error + string)" where
  "getAIResponse client b message fromNick =
     (let userMessage = \<lparr>Role = ''user'', Content = fromNick @ '': '' @ message\<rparr>;
          b = b\<lparr>bot_context := addToContext (bot_context b) userMessage\<rparr>;
          prompt = buildPrompt (bot_context b);
          url = apiUrl prompt
      in case client url of
           GetError err \<Rightarrow> (b, [HttpGet url], Inl (RequestFailed err))
         | Response status body readErr \<Rightarrow>
             if status \<noteq> 200 then (b, [HttpGet url], Inl (StatusFailed status body))
             else (case readErr of
                     Some err \<Rightarrow> (b, [HttpGet url], Inl (ReadFailed err))
                   | None \<Rightarrow>
                       (let aiResponse = TrimSpace body;
                            aiResponse = cleanAIResponse aiResponse;
                            b = b\<lparr>bot_context := addToContext (bot_context b)
                                    \<lparr>Role = ''assistant'', Content = aiResponse\<rparr>\<rparr>
                        in (b, [HttpGet url], Inr aiResponse))))"

text \<open>
  The event of a \<open>PRIVMSG\<close>: the sender, the arguments of the command and the text
  that the library's \<open>e.Message()\<close> returns.
\<close>

record Event =
  e_Nick :: string
  e_Arguments :: "string list"
  e_Message :: string

text \<open>Lines 129--130 of \<open>handleMessage\<close>: whether the bot engages.\<close>

definition shouldRespond :: "Config \<Rightarrow> string \<Rightarrow> string \<Rightarrow> bool" where
  "shouldRespond cfg target message =
     (let isPrivateMessage = (target = Nick cfg)
      in isPrivateMessage \<or> shouldRespondToMessage cfg message)"

text \<open>
  \<open>handleMessage\<close> (lines 118--156). \<open>e.Arguments[0]\<close> is read first and panics on an
  event without arguments; \<open>cleanMessage\<close> panics on a nick that is not valid UTF-8.
\<close>

definition handleMessage ::
  "foldTable \<Rightarrow> (string \<Rightarrow> http_result) \<Rightarrow> IRCBot \<Rightarrow> Event \<Rightarrow> panic + IRCBot \<times> effect list" where
  "handleMessage orbit client b e =
     (case e_Arguments e of
        [] \<Rightarrow> Inl IndexOutOfRange
      | target # _ \<Rightarrow>
          (let nick = e_Nick e; message = e_Message e
           in if nick = Nick (config b) then Inr (b, [])
              else if \<not> shouldRespond (config b) target message then Inr (b, [])
              else (case cleanMessage orbit (config b) message of
                      Inl p \<Rightarrow> Inl p
                    | Inr cleanMsg \<Rightarrow>
                        (case getAIResponse client b cleanMsg nick of
                           (b', effects, Inl err) \<Rightarrow> Inr (b', effects)
                         | (b', effects, Inr response) \<Rightarrow>
                             (let responseTarget = (if target = Nick (config b) then nick else target)
                              in Inr (b', effects @ sendResponse responseTarget response))))))"

section \<open>The configuration of \<open>main\<close>\<close>

text \<open>
  The configuration \<open>main\<close> builds when no environment variable is set (lines
  362--381). The default trigger pattern \<open>(?i)(steve|^!)\<close> matches a text that
  contains \<open>steve\<close> in any case or starts with \<open>!\<close>.
\<close>

definition defaultTrigger :: "string \<Rightarrow> bool" where
  "defaultTrigger s = (Contains (ToLower s) ''steve'' \<or> prefix ''!'' s)"

definition mainConfig :: Config where
  "mainConfig =
     \<lparr>Server = ''irc.h4ks.com'', Port = ''6697'', Channel = ''#lobby'', Nick = ''SteveBot'',
      BotName = ''Very cool and helpful bot'',
      Persona = ''You are a helpful and friendly IRC bot named Steve. Keep responses concise and engaging. You have a casual, slightly witty personality. Always be respectful and helpful.'',
      TriggerPattern = Some defaultTrigger\<rparr>"

text \<open>The \<open>n\<close>-th user turn of a test conversation.\<close>

definition turn :: "nat \<Rightarrow> Message" where
  "turn n = \<lparr>Role = ''user'', Content = ''bob: '' @ replicate n (CHR ''x'')\<rparr>"

section \<open>Predicates of the statements\<close>

text \<open>
  A chunk is within the budget, or is one of the words \<open>W\<close>.
\<close>

definition chunkOk :: "int \<Rightarrow> string set \<Rightarrow> string \<Rightarrow> bool" where
  "chunkOk maxLength W c = (int (length c) \<le> maxLength \<or> c \<in> W)"

text \<open>
  The rendering of the window in the words of the specification: each entry as its
  capitalised role label, \<open>": "\<close>, its content and a newline, then the cue
  \<open>"Assistant: "\<close>. The roles \<open>persona\<close>, \<open>user\<close> and \<open>assistant\<close> are the strings
  \<open>"system"\<close>, \<open>"user"\<close> and \<open>"assistant"\<close> of the code.
\<close>

definition roleLabel :: "string \<Rightarrow> string" where
  "roleLabel r = (if r = ''system'' then ''System'' else if r = ''user'' then ''User'' else ''Assistant'')"

definition renderEntry :: "Message \<Rightarrow> string" where
  "renderEntry m = roleLabel (Role m) @ '': '' @ Content m @ [CHR 0x0A]"

definition serialize_spec :: "Message list \<Rightarrow> string" where
  "serialize_spec ctx = concat (map renderEntry ctx) @ ''Assistant: ''"

definition knownRole :: "Message \<Rightarrow> bool" where
  "knownRole m = (Role m = ''system'' \<or> Role m = ''user'' \<or> Role m = ''assistant'')"

text \<open>
  The tokens \<open>ts\<close> start with the nick in any case, immediately followed by \<open>,\<close> or \<open>:\<close>.
\<close>

definition mentionAt :: "foldTable \<Rightarrow> int list \<Rightarrow> token list \<Rightarrow> bool" where
  "mentionAt orbit nick ts =
     (\<exists>n p rest. ts = n @ p # rest \<and> list_all2 (foldEq orbit) nick (map fst n)
        \<and> (fst p = 0x2C \<or> fst p = 0x3A))"

text \<open>
  The two orbits of \<open>unicode.SimpleFold\<close> that hold ASCII letters and a rune outside
  ASCII: \<open>K\<close>, \<open>k\<close> and the Kelvin sign U+212A; \<open>S\<close>, \<open>s\<close> and the long s U+017F. For a
  pattern of ASCII runes no other entry of the table is read.
\<close>

definition latinOrbit :: foldTable where
  "latinOrbit p r =
     ((p \<in> {0x4B, 0x6B, 0x212A} \<and> r \<in> {0x4B, 0x6B, 0x212A})
      \<or> (p \<in> {0x53, 0x73, 0x17F} \<and> r \<in> {0x53, 0x73, 0x17F}))"

text \<open>The bot of the examples of the specification: nick \<open>Steve\<close>, no trigger pattern.\<close>

definition steveConfig :: Config where
  "steveConfig = mainConfig\<lparr>Nick := ''Steve'', TriggerPattern := None\<rparr>"

section \<open>Properties of the context buffer\<close>

lemma addToContext_length: "length ctx \<le> 19 \<Longrightarrow> length (addToContext ctx m) \<le> 19"
  by (simp add: addToContext_def Let_def)

lemma addToContext_hd: "ctx \<noteq> [] \<Longrightarrow> addToContext ctx m ! 0 = ctx ! 0"
  by (cases ctx) (simp_all add: addToContext_def Let_def)

lemma addToContext_nonempty: "addToContext ctx m \<noteq> []"
  by (simp add: addToContext_def Let_def)

lemma appends_invariant:
  "length ctx \<le> 19 \<Longrightarrow> ctx \<noteq> [] \<Longrightarrow>
     length (appends ctx ms) \<le> 19 \<and> appends ctx ms \<noteq> [] \<and> appends ctx ms ! 0 = ctx ! 0"
  unfolding appends_def
proof (induction ms arbitrary: ctx)
  case Nil
  then show ?case by simp
next
  case (Cons m ms)
  have "length (addToContext ctx m) \<le> 19"
    using Cons.prems(1) by (rule addToContext_length)
  moreover have "addToContext ctx m \<noteq> []"
    by (rule addToContext_nonempty)
  ultimately have "length (foldl addToContext (addToContext ctx m) ms) \<le> 19
      \<and> foldl addToContext (addToContext ctx m) ms \<noteq> []
      \<and> foldl addToContext (addToContext ctx m) ms ! 0 = addToContext ctx m ! 0"
    by (rule Cons.IH)
  then show ?case
    using addToContext_hd [OF Cons.prems(2)] by simp
qed

lemma appends_length: "length ctx \<le> 19 \<Longrightarrow> length (appends ctx ms) \<le> 19"
  unfolding appends_def
proof (induction ms arbitrary: ctx)
  case Nil
  then show ?case by simp
next
  case (Cons m ms)
  then show ?case by (simp add: addToContext_length)
qed

text \<open>
  C1. After any sequence of appends to the context of a freshly created bot the
  context holds at most 19 entries, and when the configured persona is not empty
  entry 0 is still the system message carrying that persona. Every prefix of a
  sequence of appends is a sequence of appends, so this is the state after each
  append.
\<close>

theorem C1_context_bounded_persona_pinned:
  "length (appends (bot_context (NewIRCBot cfg)) ms) \<le> 19 \<and>
   (Persona cfg \<noteq> [] \<longrightarrow>
      appends (bot_context (NewIRCBot cfg)) ms ! 0 = \<lparr>Role = ''system'', Content = Persona cfg\<rparr>)"
proof (cases "Persona cfg = []")
  case True
  then show ?thesis
    using appends_length [of "[]" ms] by (simp add: NewIRCBot_def)
next
  case False
  then show ?thesis
    using appends_invariant [of "[\<lparr>Role = ''system'', Content = Persona cfg\<rparr>]" ms]
    by (simp add: NewIRCBot_def)
qed

theorem C1_witness:
  "Persona mainConfig \<noteq> [] \<and>
   length (appends (bot_context (NewIRCBot mainConfig)) (map turn [1..<26])) \<le> 19 \<and>
   appends (bot_context (NewIRCBot mainConfig)) (map turn [1..<26]) ! 0
     = \<lparr>Role = ''system'', Content = Persona mainConfig\<rparr>"
  using C1_context_bounded_persona_pinned [of mainConfig "map turn [1..<26]"]
  by (simp add: mainConfig_def)

section \<open>Properties of the library helpers\<close>

lemma Contains_iff: "Contains s sub \<longleftrightarrow> (\<exists>a b. s = a @ sub @ b)"
proof (induction s)
  case Nil
  then show ?case by auto
next
  case (Cons c cs)
  show ?case
  proof
    assume "Contains (c # cs) sub"
    then consider "prefix sub (c # cs)" | "Contains cs sub" by auto
    then show "\<exists>a b. c # cs = a @ sub @ b"
    proof cases
      case 1
      then obtain b where "c # cs = sub @ b" by (auto simp: prefix_def)
      then have "c # cs = [] @ sub @ b" by simp
      then show ?thesis by blast
    next
      case 2
      then obtain a b where "cs = a @ sub @ b" using Cons.IH by blast
      then have "c # cs = (c # a) @ sub @ b" by simp
      then show ?thesis by blast
    qed
  next
    assume "\<exists>a b. c # cs = a @ sub @ b"
    then obtain a b where ab: "c # cs = a @ sub @ b" by blast
    show "Contains (c # cs) sub"
    proof (cases a)
      case Nil
      then have "prefix sub (c # cs)" using ab by (simp add: prefix_def)
      then show ?thesis by simp
    next
      case (Cons a0 a')
      then have "cs = a' @ sub @ b" using ab by simp
      then have "Contains cs sub" using Cons.IH by blast
      then show ?thesis by simp
    qed
  qed
qed

lemma fieldsFrom_words:
  "\<forall>ch\<in>set w0. \<not> isSpace ch \<Longrightarrow> w \<in> set (fieldsFrom w0 s) \<Longrightarrow> w \<noteq> [] \<and> (\<forall>ch\<in>set w. \<not> isSpace ch)"
proof (induction s arbitrary: w0)
  case Nil
  then show ?case by (auto split: if_splits)
next
  case (Cons c cs)
  show ?case
  proof (cases "isSpace c")
    case True
    then have "w = w0 \<and> w0 \<noteq> [] \<or> w \<in> set (fieldsFrom [] cs)"
      using Cons.prems(2) by (auto split: if_splits)
    then show ?thesis
      using Cons.IH [of "[]"] Cons.prems(1) by auto
  next
    case False
    then have "w \<in> set (fieldsFrom (w0 @ [c]) cs)"
      using Cons.prems(2) by simp
    moreover have "\<forall>ch\<in>set (w0 @ [c]). \<not> isSpace ch"
      using False Cons.prems(1) by simp
    ultimately show ?thesis
      using Cons.IH [of "w0 @ [c]"] by blast
  qed
qed

lemma Fields_words: "w \<in> set (Fields s) \<Longrightarrow> w \<noteq> [] \<and> (\<forall>ch\<in>set w. \<not> isSpace ch)"
  unfolding Fields_def using fieldsFrom_words [of "[]" w s] by simp

lemma wordsLoop_ok:
  "set words \<subseteq> W \<Longrightarrow> cur = [] \<or> chunkOk maxLength W cur \<Longrightarrow> \<forall>c\<in>set sent. chunkOk maxLength W c \<Longrightarrow>
   wordsLoop maxLength words cur sent = (cur', sent') \<Longrightarrow>
   (cur' = [] \<or> chunkOk maxLength W cur') \<and> (\<forall>c\<in>set sent'. chunkOk maxLength W c)"
proof (induction words arbitrary: cur sent)
  case Nil
  then show ?case by simp
next
  case (Cons word words)
  show ?case
  proof (cases "int (length cur) + int (length word) + 1 \<le> maxLength")
    case True
    let ?cur = "(if cur \<noteq> [] then cur @ '' '' else cur) @ word"
    have "chunkOk maxLength W ?cur"
      using True by (simp add: chunkOk_def)
    moreover have "wordsLoop maxLength words ?cur sent = (cur', sent')"
      using Cons.prems(4) True by simp
    ultimately show ?thesis
      using Cons.IH [of ?cur sent] Cons.prems(1,3) by simp
  next
    case False
    let ?sent = "if cur \<noteq> [] then sent @ [cur] else sent"
    have "chunkOk maxLength W word"
      using Cons.prems(1) by (simp add: chunkOk_def)
    moreover have "\<forall>c\<in>set ?sent. chunkOk maxLength W c"
      using Cons.prems(2,3) by auto
    moreover have "wordsLoop maxLength words word ?sent = (cur', sent')"
      using Cons.prems(4) False by simp
    ultimately show ?thesis
      using Cons.IH [of word ?sent] Cons.prems(1) by simp
  qed
qed

lemma sentencesLoop_ok:
  "(\<Union>s\<in>set sentences. set (Fields s)) \<subseteq> W \<Longrightarrow> cur = [] \<or> chunkOk maxLength W cur \<Longrightarrow>
   \<forall>c\<in>set sent. chunkOk maxLength W c \<Longrightarrow>
   sentencesLoop maxLength sentences cur sent = (cur', sent') \<Longrightarrow>
   (cur' = [] \<or> chunkOk maxLength W cur') \<and> (\<forall>c\<in>set sent'. chunkOk maxLength W c)"
proof (induction sentences arbitrary: cur sent)
  case Nil
  then show ?case by simp
next
  case (Cons sentence sentences)
  have W: "(\<Union>s\<in>set sentences. set (Fields s)) \<subseteq> W" and Ws: "set (Fields sentence) \<subseteq> W"
    using Cons.prems(1) by auto
  show ?case
  proof (cases "int (length cur) + int (length sentence) + 1 \<le> maxLength")
    case True
    let ?cur = "(if cur \<noteq> [] then cur @ '' '' else cur) @ sentence"
    have "chunkOk maxLength W ?cur"
      using True by (simp add: chunkOk_def)
    moreover have "sentencesLoop maxLength sentences ?cur sent = (cur', sent')"
      using Cons.prems(4) True by simp
    ultimately show ?thesis
      using Cons.IH [of ?cur sent] W Cons.prems(3) by simp
  next
    case False
    let ?sent = "if cur \<noteq> [] then sent @ [cur] else sent"
    have sent: "\<forall>c\<in>set ?sent. chunkOk maxLength W c"
      using Cons.prems(2,3) by auto
    show ?thesis
    proof (cases "int (length sentence) > maxLength")
      case True
      obtain cur1 sent1 where w: "wordsLoop maxLength (Fields sentence) [] ?sent = (cur1, sent1)"
        by (cases "wordsLoop maxLength (Fields sentence) [] ?sent")
      have "(cur1 = [] \<or> chunkOk maxLength W cur1) \<and> (\<forall>c\<in>set sent1. chunkOk maxLength W c)"
        using wordsLoop_ok [OF Ws _ sent w] by simp
      moreover have "sentencesLoop maxLength sentences cur1 sent1 = (cur', sent')"
        using Cons.prems(4) False True w by (simp add: Let_def)
      ultimately show ?thesis
        using Cons.IH [of cur1 sent1] W by simp
    next
      case short: False
      have "chunkOk maxLength W sentence"
        using short by (simp add: chunkOk_def)
      moreover have "sentencesLoop maxLength sentences sentence ?sent = (cur', sent')"
        using Cons.prems(4) False short by (simp add: Let_def)
      ultimately show ?thesis
        using Cons.IH [of sentence ?sent] W sent by simp
    qed
  qed
qed

lemma segment_ok:
  "c \<in> set (segment response maxLength) \<Longrightarrow>
   chunkOk maxLength (\<Union>s\<in>set (Split response). set (Fields s)) c"
proof (cases "int (length response) \<le> maxLength")
  case True
  assume "c \<in> set (segment response maxLength)"
  then show ?thesis using True by (simp add: segment_def chunkOk_def)
next
  case False
  assume c: "c \<in> set (segment response maxLength)"
  let ?W = "\<Union>s\<in>set (Split response). set (Fields s)"
  obtain cur sent where l: "sentencesLoop maxLength (Split response) [] [] = (cur, sent)"
    by (cases "sentencesLoop maxLength (Split response) [] []")
  have "(cur = [] \<or> chunkOk maxLength ?W cur) \<and> (\<forall>c\<in>set sent. chunkOk maxLength ?W c)"
    using sentencesLoop_ok [of "Split response" ?W "[]" maxLength "[]" cur sent] l by simp
  moreover have "c \<in> set sent \<or> (c = cur \<and> cur \<noteq> [])"
    using c False l by (auto simp: segment_def split: if_splits)
  ultimately show ?thesis by auto
qed

text \<open>
  C3. Every chunk of \<open>segment text maxLen\<close> has at most \<open>maxLen\<close> bytes, or it is a
  single word: one of the whitespace-delimited fields of a sentence fragment of the
  text, not empty and without whitespace, emitted whole.
\<close>

theorem C3_chunks_within_budget_or_single_word:
  "\<forall>c\<in>set (segment text maxLen).
     int (length c) \<le> maxLen \<or>
     ((\<exists>s\<in>set (Split text). c \<in> set (Fields s)) \<and> c \<noteq> [] \<and> (\<forall>ch\<in>set c. \<not> isSpace ch))"
proof
  fix c assume "c \<in> set (segment text maxLen)"
  then have "chunkOk maxLen (\<Union>s\<in>set (Split text). set (Fields s)) c"
    by (rule segment_ok)
  then consider "int (length c) \<le> maxLen" | s where "s \<in> set (Split text)" "c \<in> set (Fields s)"
    by (auto simp: chunkOk_def)
  then show "int (length c) \<le> maxLen \<or>
     ((\<exists>s\<in>set (Split text). c \<in> set (Fields s)) \<and> c \<noteq> [] \<and> (\<forall>ch\<in>set c. \<not> isSpace ch))"
  proof cases
    case 1
    then show ?thesis by simp
  next
    case 2
    then show ?thesis using Fields_words [of c s] by blast
  qed
qed

theorem C3_witness:
  "replicate 401 (CHR ''x'') \<in> set (segment (replicate 401 (CHR ''x'') @ '' tail'') 400) \<and>
   \<not> int (length (replicate 401 (CHR ''x''))) \<le> 400 \<and>
   (\<exists>s\<in>set (Split (replicate 401 (CHR ''x'') @ '' tail'')). replicate 401 (CHR ''x'') \<in> set (Fields s)) \<and>
   replicate 401 (CHR ''x'') \<noteq> [] \<and> \<not> isSpace (CHR ''x'')"
proof -
  have m: "replicate 401 (CHR ''x'') \<in> set (segment (replicate 401 (CHR ''x'') @ '' tail'') 400)"
    by code_simp
  have l: "\<not> int (length (replicate 401 (CHR ''x''))) \<le> 400"
    by simp
  have x: "CHR ''x'' \<in> set (replicate 401 (CHR ''x''))"
    by simp
  show ?thesis
    using m l x C3_chunks_within_budget_or_single_word [of "replicate 401 (CHR ''x'') @ '' tail''" 400]
    by blast
qed

section \<open>Chunks are not empty\<close>

lemma wordsLoop_nonempty:
  "[] \<notin> set sent \<Longrightarrow> wordsLoop maxLength words cur sent = (cur', sent') \<Longrightarrow> [] \<notin> set sent'"
proof (induction words arbitrary: cur sent)
  case Nil
  then show ?case by simp
next
  case (Cons word words)
  show ?case
  proof (cases "int (length cur) + int (length word) + 1 \<le> maxLength")
    case True
    then show ?thesis
      using Cons.IH [of sent] Cons.prems by simp
  next
    case False
    let ?sent = "if cur \<noteq> [] then sent @ [cur] else sent"
    have "[] \<notin> set ?sent"
      using Cons.prems(1) by simp
    moreover have "wordsLoop maxLength words word ?sent = (cur', sent')"
      using Cons.prems(2) False by simp
    ultimately show ?thesis
      by (rule Cons.IH)
  qed
qed

lemma sentencesLoop_nonempty:
  "[] \<notin> set sent \<Longrightarrow> sentencesLoop maxLength sentences cur sent = (cur', sent') \<Longrightarrow>
   [] \<notin> set sent'"
proof (induction sentences arbitrary: cur sent)
  case Nil
  then show ?case by simp
next
  case (Cons sentence sentences)
  show ?case
  proof (cases "int (length cur) + int (length sentence) + 1 \<le> maxLength")
    case True
    then show ?thesis
      using Cons.IH [of sent] Cons.prems by simp
  next
    case False
    let ?sent = "if cur \<noteq> [] then sent @ [cur] else sent"
    have sent: "[] \<notin> set ?sent"
      using Cons.prems(1) by simp
    show ?thesis
    proof (cases "int (length sentence) > maxLength")
      case True
      obtain cur1 sent1 where w: "wordsLoop maxLength (Fields sentence) [] ?sent = (cur1, sent1)"
        by (cases "wordsLoop maxLength (Fields sentence) [] ?sent")
      have "[] \<notin> set sent1"
        using sent w by (rule wordsLoop_nonempty)
      moreover have "sentencesLoop maxLength sentences cur1 sent1 = (cur', sent')"
        using Cons.prems(2) False True w by (simp add: Let_def)
      ultimately show ?thesis
        by (rule Cons.IH)
    next
      case short: False
      have "sentencesLoop maxLength sentences sentence ?sent = (cur', sent')"
        using Cons.prems(2) False short by (simp add: Let_def)
      with sent show ?thesis
        by (rule Cons.IH)
    qed
  qed
qed

lemma segment_nonempty: "text \<noteq> [] \<Longrightarrow> [] \<notin> set (segment text maxLen)"
proof (cases "int (length text) \<le> maxLen")
  case True
  assume "text \<noteq> []"
  then show ?thesis using True by (simp add: segment_def)
next
  case False
  obtain cur sent where l: "sentencesLoop maxLen (Split text) [] [] = (cur, sent)"
    by (cases "sentencesLoop maxLen (Split text) [] []")
  have "[] \<notin> set sent"
    using sentencesLoop_nonempty [of "[]" maxLen "Split text" "[]" cur sent] l by simp
  then show ?thesis
    using False l by (simp add: segment_def)
qed

lemma segment_empty_text:
  "segment [] maxLen = (if 0 \<le> maxLen then [[]] else [])"
  by (simp add: segment_def Split_def Fields_def)

text \<open>
  C9. A response that is not empty never gives an empty chunk (\<open>segment_nonempty\<close>),
  and every send of the long way is guarded by \<open>currentMsg != ""\<close>: a blank response
  of 401 spaces sends nothing. The empty response is within the budget and goes the
  short way, which sends it unguarded: one empty line, not zero chunks. The handler
  gets there when the generator answers with an empty body.
\<close>

theorem C9_empty_response_sends_empty_line:
  "segment [] 400 = [[]]
   \<and> sendResponse ''#lobby'' [] = [Privmsg ''#lobby'' []]
   \<and> segment (replicate 401 (CHR '' '')) 400 = []
   \<and> cleanAIResponse (TrimSpace []) = []
   \<and> (case handleMessage latinOrbit (\<lambda>url. Response 200 [] None) (NewIRCBot mainConfig)
          \<lparr>e_Nick = ''alice'', e_Arguments = [''#lobby'', ''SteveBot: hi''], e_Message = ''SteveBot: hi''\<rparr>
       of Inl p \<Rightarrow> [] | Inr (b', effects) \<Rightarrow> tl effects)
      = [Privmsg ''#lobby'' []]"
  by code_simp

text \<open>
  C4. A response of 402 bytes, two runs of 200 letters with \<open>". "\<close> between them:
  \<open>Split\<close> drops the terminator it matches, and the two lines sent do not contain the
  full stop of the response.
\<close>

theorem C4_sentence_terminators_dropped:
  "sendResponse ''#lobby'' (replicate 200 (CHR ''a'') @ ''. '' @ replicate 200 (CHR ''b''))
     = [Privmsg ''#lobby'' (replicate 200 (CHR ''a'')), Privmsg ''#lobby'' (replicate 200 (CHR ''b''))]
   \<and> CHR ''.'' \<in> set (replicate 200 (CHR ''a'') @ ''. '' @ replicate 200 (CHR ''b''))
   \<and> CHR ''.'' \<notin> set (concat (segment (replicate 200 (CHR ''a'') @ ''. '' @ replicate 200 (CHR ''b'')) 400))"
  by code_simp

section \<open>Eviction\<close>

text \<open>
  An append to a full context of 19 entries keeps entry 0, drops entry 1 and keeps
  the rest in order. With a persona this drops the oldest turn.
\<close>

lemma addToContext_full:
  "length ctx = 19 \<Longrightarrow> addToContext ctx m = ctx ! 0 # drop 2 ctx @ [m]"
  by (cases ctx) (simp_all add: addToContext_def Let_def)

lemma addToContext_not_full:
  "length ctx < 19 \<Longrightarrow> addToContext ctx m = ctx @ [m]"
  by (simp add: addToContext_def Let_def)

lemma persona_25_appends:
  "appends (bot_context (NewIRCBot (mainConfig\<lparr>Persona := ''P''\<rparr>))) (map turn [1..<26])
     = \<lparr>Role = ''system'', Content = ''P''\<rparr> # map turn [8..<26]"
  by code_simp

text \<open>
  C2. Without a persona entry 0 is the oldest turn: after 20 appends to the empty
  context the first turn is still there and the second one is gone, so the context is
  not the 19 most recent turns.
\<close>

theorem C2_no_persona_keeps_oldest_turn:
  "appends (bot_context (NewIRCBot (mainConfig\<lparr>Persona := []\<rparr>))) (map turn [1..<21])
     = turn 1 # map turn [3..<21]
   \<and> appends (bot_context (NewIRCBot (mainConfig\<lparr>Persona := []\<rparr>))) (map turn [1..<21])
     \<noteq> map turn [2..<21]"
  by code_simp

section \<open>The prompt\<close>

lemma buildPrompt_loop_render:
  "\<forall>m\<in>set ctx. knownRole m \<Longrightarrow> buildPrompt_loop ctx b = b @ concat (map renderEntry ctx)"
proof (induction ctx arbitrary: b)
  case Nil
  then show ?case by simp
next
  case (Cons m ctx)
  have "knownRole m" and rest: "\<forall>m\<in>set ctx. knownRole m"
    using Cons.prems by simp_all
  then have "Role m = ''system'' \<or> Role m = ''user'' \<or> Role m = ''assistant''"
    by (simp add: knownRole_def)
  then show ?case
    using Cons.IH [OF rest] by (auto simp: renderEntry_def roleLabel_def)
qed

lemma set_addToContext: "set (addToContext ctx m) \<subseteq> insert m (set ctx)"
proof -
  have "set (drop (length (ctx @ [m]) - 18) (ctx @ [m])) \<subseteq> set (ctx @ [m])"
    by (rule set_drop_subset)
  moreover have "length (ctx @ [m]) > 19 \<Longrightarrow> (ctx @ [m]) ! 0 \<in> set (ctx @ [m])"
    by (rule nth_mem) simp
  ultimately show ?thesis
    by (auto simp: addToContext_def Let_def)
qed

lemma knownRole_addToContext:
  "\<forall>x\<in>set ctx. knownRole x \<Longrightarrow> knownRole m \<Longrightarrow> \<forall>x\<in>set (addToContext ctx m). knownRole x"
  using set_addToContext [of ctx m] by auto

lemma knownRole_NewIRCBot: "\<forall>x\<in>set (bot_context (NewIRCBot cfg)). knownRole x"
  by (simp add: NewIRCBot_def knownRole_def)

lemma knownRole_getAIResponse:
  assumes "\<forall>x\<in>set (bot_context b). knownRole x"
    and "getAIResponse client b message fromNick = (b', effects, r)"
  shows "\<forall>x\<in>set (bot_context b'). knownRole x"
proof -
  let ?u = "\<lparr>Role = ''user'', Content = fromNick @ '': '' @ message\<rparr>"
  have u: "\<forall>x\<in>set (addToContext (bot_context b) ?u). knownRole x"
    using assms(1) by (rule knownRole_addToContext) (simp add: knownRole_def)
  have a: "\<forall>x\<in>set (addToContext (addToContext (bot_context b) ?u)
      \<lparr>Role = ''assistant'', Content = c\<rparr>). knownRole x" for c
    using u by (rule knownRole_addToContext) (simp add: knownRole_def)
  show ?thesis
    using assms(2) u a
    by (auto simp: getAIResponse_def Let_def split: http_result.splits if_splits option.splits)
qed

text \<open>The ways through \<open>handleMessage\<close> for an event with a target.\<close>

lemma handleMessage_self:
  "e_Arguments e = target # rest \<Longrightarrow> e_Nick e = Nick (config b) \<Longrightarrow>
   handleMessage orbit client b e = Inr (b, [])"
  by (simp add: handleMessage_def Let_def)

lemma handleMessage_ignore:
  "e_Arguments e = target # rest \<Longrightarrow> \<not> shouldRespond (config b) target (e_Message e) \<Longrightarrow>
   handleMessage orbit client b e = Inr (b, [])"
  by (simp add: handleMessage_def Let_def)

lemma handleMessage_panic:
  assumes "e_Arguments e = target # rest"
    and "e_Nick e \<noteq> Nick (config b)"
    and "shouldRespond (config b) target (e_Message e)"
    and "cleanMessage orbit (config b) (e_Message e) = Inl p"
  shows "handleMessage orbit client b e = Inl p"
  using assms by (simp add: handleMessage_def Let_def)

lemma handleMessage_engage:
  assumes "e_Arguments e = target # rest"
    and "e_Nick e \<noteq> Nick (config b)"
    and "shouldRespond (config b) target (e_Message e)"
    and "cleanMessage orbit (config b) (e_Message e) = Inr cleanMsg"
    and "getAIResponse client b cleanMsg (e_Nick e) = (b1, effs, r)"
  shows "handleMessage orbit client b e =
    Inr (b1, effs @ (case r of Inl err \<Rightarrow> []
      | Inr response \<Rightarrow> sendResponse (if target = Nick (config b) then e_Nick e else target) response))"
  using assms by (cases r) (simp_all add: handleMessage_def Let_def)

lemma knownRole_handleMessage:
  assumes "\<forall>x\<in>set (bot_context b). knownRole x"
    and "handleMessage orbit client b e = Inr (b', effects)"
  shows "\<forall>x\<in>set (bot_context b'). knownRole x"
proof (cases "e_Arguments e")
  case Nil
  then show ?thesis using assms(2) by (simp add: handleMessage_def)
next
  case (Cons target rest)
  show ?thesis
  proof (cases "e_Nick e = Nick (config b) \<or> \<not> shouldRespond (config b) target (e_Message e)")
    case True
    then have "handleMessage orbit client b e = Inr (b, [])"
      using handleMessage_self [OF Cons] handleMessage_ignore [OF Cons] by blast
    then have "b' = b"
      using assms(2) by simp
    then show ?thesis using assms(1) by simp
  next
    case False
    show ?thesis
    proof (cases "cleanMessage orbit (config b) (e_Message e)")
      case (Inl p)
      then have "handleMessage orbit client b e = Inl p"
        using handleMessage_panic [OF Cons] False by blast
      then show ?thesis
        using assms(2) by simp
    next
      case (Inr cleanMsg)
      obtain b1 effs r where g: "getAIResponse client b cleanMsg (e_Nick e) = (b1, effs, r)"
        by (cases "getAIResponse client b cleanMsg (e_Nick e)")
      have "b' = b1"
        using assms(2) handleMessage_engage [OF Cons _ _ Inr g] False by simp
      then show ?thesis
        using knownRole_getAIResponse [OF assms(1) g] by simp
    qed
  qed
qed

text \<open>
  C6. For every window whose entries carry one of the three roles (every context the
  bot builds does: \<open>knownRole_NewIRCBot\<close>, \<open>knownRole_handleMessage\<close>), \<open>buildPrompt\<close>
  gives the rendering of the specification: the entries in order, each as label,
  \<open>": "\<close>, content and newline, then \<open>"Assistant: "\<close> without a newline.
  \<open>buildPrompt\<close> is a function of the context and returns the string only.
\<close>

theorem C6_buildPrompt_renders_window:
  "\<forall>m\<in>set ctx. Role m = ''system'' \<or> Role m = ''user'' \<or> Role m = ''assistant'' \<Longrightarrow>
   buildPrompt ctx = serialize_spec ctx"
proof -
  assume "\<forall>m\<in>set ctx. Role m = ''system'' \<or> Role m = ''user'' \<or> Role m = ''assistant''"
  then have "\<forall>m\<in>set ctx. knownRole m"
    by (simp add: knownRole_def)
  then have "buildPrompt_loop ctx [] = [] @ concat (map renderEntry ctx)"
    by (rule buildPrompt_loop_render)
  then show ?thesis
    by (simp add: buildPrompt_def serialize_spec_def)
qed

theorem C6_witness:
  "buildPrompt [\<lparr>Role = ''system'', Content = ''P''\<rparr>, \<lparr>Role = ''user'', Content = ''bob: hi''\<rparr>,
       \<lparr>Role = ''assistant'', Content = ''hello''\<rparr>]
     = serialize_spec [\<lparr>Role = ''system'', Content = ''P''\<rparr>, \<lparr>Role = ''user'', Content = ''bob: hi''\<rparr>,
       \<lparr>Role = ''assistant'', Content = ''hello''\<rparr>]
   \<and> serialize_spec [\<lparr>Role = ''system'', Content = ''P''\<rparr>, \<lparr>Role = ''user'', Content = ''bob: hi''\<rparr>,
       \<lparr>Role = ''assistant'', Content = ''hello''\<rparr>]
     = ''System: P'' @ [CHR 0x0A] @ ''User: bob: hi'' @ [CHR 0x0A] @ ''Assistant: hello'' @ [CHR 0x0A]
         @ ''Assistant: ''"
proof -
  have h: "\<forall>m\<in>set [\<lparr>Role = ''system'', Content = ''P''\<rparr>, \<lparr>Role = ''user'', Content = ''bob: hi''\<rparr>,
       \<lparr>Role = ''assistant'', Content = ''hello''\<rparr>].
       Role m = ''system'' \<or> Role m = ''user'' \<or> Role m = ''assistant''"
    by simp
  show ?thesis
    using C6_buildPrompt_renders_window [OF h]
    by (simp add: serialize_spec_def renderEntry_def roleLabel_def)
qed

section \<open>The message handler\<close>

lemma shouldRespond_iff:
  "shouldRespond cfg target message \<longleftrightarrow>
     target = Nick cfg \<or> (\<exists>l r. ToLower message = l @ ToLower (Nick cfg) @ r)
     \<or> (\<exists>pat. TriggerPattern cfg = Some pat \<and> pat message)"
  by (cases "TriggerPattern cfg")
    (auto simp: shouldRespond_def shouldRespondToMessage_def Contains_iff)

lemma getAIResponse_failure:
  assumes "client (apiUrl (buildPrompt (addToContext (bot_context b)
             \<lparr>Role = ''user'', Content = fromNick @ '': '' @ message\<rparr>))) = GetError err
    \<or> (client (apiUrl (buildPrompt (addToContext (bot_context b)
             \<lparr>Role = ''user'', Content = fromNick @ '': '' @ message\<rparr>))) = Response status body readErr
       \<and> (status \<noteq> 200 \<or> readErr \<noteq> None))"
  shows "\<exists>err'. getAIResponse client b message fromNick =
    (b\<lparr>bot_context := addToContext (bot_context b) \<lparr>Role = ''user'', Content = fromNick @ '': '' @ message\<rparr>\<rparr>,
     [HttpGet (apiUrl (buildPrompt (addToContext (bot_context b)
             \<lparr>Role = ''user'', Content = fromNick @ '': '' @ message\<rparr>)))],
     Inl err')"
  using assms by (auto simp: getAIResponse_def Let_def)

text \<open>
  C7. The bot engages with a message exactly when it was sent to the bot itself (the
  target is the bot's nick), or its text contains the nick as a substring after both
  are lowered, or a trigger pattern is configured and matches the text. When it does
  not engage, the handler returns the bot unchanged and has no effect: no request to
  the generator, no line sent. The two examples of the specification, for the nick
  \<open>Steve\<close> without a trigger pattern on a channel message.
\<close>

theorem C7_engage_iff:
  "(shouldRespond cfg target message \<longleftrightarrow>
      target = Nick cfg \<or> (\<exists>l r. ToLower message = l @ ToLower (Nick cfg) @ r)
      \<or> (\<exists>pat. TriggerPattern cfg = Some pat \<and> pat message))
   \<and> (e_Arguments e = tgt # rest \<and> \<not> shouldRespond (config b) tgt (e_Message e)
        \<longrightarrow> handleMessage orbit client b e = Inr (b, []))
   \<and> shouldRespond steveConfig ''#lobby'' ''anyone seen steve?''
   \<and> \<not> shouldRespond steveConfig ''#lobby'' ''just chatting''"
proof -
  have "shouldRespond steveConfig ''#lobby'' ''anyone seen steve?''"
    by code_simp
  moreover have "\<not> shouldRespond steveConfig ''#lobby'' ''just chatting''"
    by code_simp
  ultimately show ?thesis
    using shouldRespond_iff [of cfg target message] handleMessage_ignore [of e tgt rest b orbit client]
    by blast
qed

theorem C7_witness:
  "e_Arguments \<lparr>e_Nick = ''alice'', e_Arguments = [''#lobby'', ''just chatting''], e_Message = ''just chatting''\<rparr>
     = ''#lobby'' # [''just chatting'']
   \<and> \<not> shouldRespond (config (NewIRCBot mainConfig)) ''#lobby''
        (e_Message \<lparr>e_Nick = ''alice'', e_Arguments = [''#lobby'', ''just chatting''], e_Message = ''just chatting''\<rparr>)
   \<and> handleMessage latinOrbit (\<lambda>url. GetError ''timeout'') (NewIRCBot mainConfig)
        \<lparr>e_Nick = ''alice'', e_Arguments = [''#lobby'', ''just chatting''], e_Message = ''just chatting''\<rparr>
       = Inr (NewIRCBot mainConfig, [])"
proof -
  have n: "\<not> shouldRespond (config (NewIRCBot mainConfig)) ''#lobby''
        (e_Message \<lparr>e_Nick = ''alice'', e_Arguments = [''#lobby'', ''just chatting''], e_Message = ''just chatting''\<rparr>)"
    by code_simp
  show ?thesis
    using n C7_engage_iff [of mainConfig "''#lobby''" "''just chatting''"
        "\<lparr>e_Nick = ''alice'', e_Arguments = [''#lobby'', ''just chatting''], e_Message = ''just chatting''\<rparr>"
        "''#lobby''" "[''just chatting'']" "NewIRCBot mainConfig" latinOrbit "\<lambda>url. GetError ''timeout''"]
    by simp
qed

text \<open>
  C10. An event with a target whose sender is the bot's own nick is ignored: the bot
  is unchanged and there is no effect, whatever the target and the text are.
\<close>

theorem C10_own_messages_ignored:
  "e_Arguments e \<noteq> [] \<Longrightarrow> e_Nick e = Nick (config b) \<Longrightarrow>
   handleMessage orbit client b e = Inr (b, [])"
proof -
  assume "e_Arguments e \<noteq> []" and self: "e_Nick e = Nick (config b)"
  then obtain target rest where "e_Arguments e = target # rest"
    by (cases "e_Arguments e") auto
  then show ?thesis
    using self by (rule handleMessage_self)
qed

theorem C10_witness:
  "e_Arguments \<lparr>e_Nick = ''SteveBot'', e_Arguments = [''SteveBot'', ''!hi SteveBot''], e_Message = ''!hi SteveBot''\<rparr> \<noteq> []
   \<and> e_Nick \<lparr>e_Nick = ''SteveBot'', e_Arguments = [''SteveBot'', ''!hi SteveBot''], e_Message = ''!hi SteveBot''\<rparr>
       = Nick (config (NewIRCBot mainConfig))
   \<and> shouldRespond mainConfig ''SteveBot'' ''!hi SteveBot''
   \<and> shouldRespondToMessage mainConfig ''!hi SteveBot''
   \<and> defaultTrigger ''!hi SteveBot''
   \<and> handleMessage latinOrbit (\<lambda>url. Response 200 ''hello'' None) (NewIRCBot mainConfig)
        \<lparr>e_Nick = ''SteveBot'', e_Arguments = [''SteveBot'', ''!hi SteveBot''], e_Message = ''!hi SteveBot''\<rparr>
       = Inr (NewIRCBot mainConfig, [])"
proof -
  have n: "e_Nick \<lparr>e_Nick = ''SteveBot'', e_Arguments = [''SteveBot'', ''!hi SteveBot''], e_Message = ''!hi SteveBot''\<rparr>
       = Nick (config (NewIRCBot mainConfig))"
    by (simp add: NewIRCBot_def mainConfig_def)
  have s: "shouldRespond mainConfig ''SteveBot'' ''!hi SteveBot''"
    by code_simp
  have t: "shouldRespondToMessage mainConfig ''!hi SteveBot''"
    by code_simp
  have d: "defaultTrigger ''!hi SteveBot''"
    by code_simp
  show ?thesis
    using n s t d C10_own_messages_ignored [of
        "\<lparr>e_Nick = ''SteveBot'', e_Arguments = [''SteveBot'', ''!hi SteveBot''], e_Message = ''!hi SteveBot''\<rparr>"
        "NewIRCBot mainConfig" latinOrbit "\<lambda>url. Response 200 ''hello'' None"]
    by simp
qed

text \<open>
  C5. When the generator call fails, \<open>getAIResponse\<close> returns an error; the context
  is the old one with the user entry appended and nothing else, and the request is
  the only effect. The handler then returns that bot and sends no line. The call
  fails when the GET request returns an error (no connection, timeout), when the
  status is not 200, and when reading the body of a response fails.
\<close>

theorem C5_failed_generator_call:
  assumes "u = \<lparr>Role = ''user'', Content = fromNick @ '': '' @ message\<rparr>"
    and "b1 = b\<lparr>bot_context := addToContext (bot_context b) u\<rparr>"
    and "url = apiUrl (buildPrompt (bot_context b1))"
    and "client url = GetError err
      \<or> (client url = Response status body readErr \<and> (status \<noteq> 200 \<or> readErr \<noteq> None))"
  shows "(\<exists>err'. getAIResponse client b message fromNick = (b1, [HttpGet url], Inl err'))
    \<and> (\<forall>e target rest.
          e_Arguments e = target # rest \<and> e_Nick e = fromNick \<and> fromNick \<noteq> Nick (config b)
          \<and> shouldRespond (config b) target (e_Message e)
          \<and> cleanMessage orbit (config b) (e_Message e) = Inr message
          \<longrightarrow> handleMessage orbit client b e = Inr (b1, [HttpGet url]))"
proof -
  have "\<exists>err'. getAIResponse client b message fromNick =
    (b\<lparr>bot_context := addToContext (bot_context b) \<lparr>Role = ''user'', Content = fromNick @ '': '' @ message\<rparr>\<rparr>,
     [HttpGet (apiUrl (buildPrompt (addToContext (bot_context b)
             \<lparr>Role = ''user'', Content = fromNick @ '': '' @ message\<rparr>)))],
     Inl err')"
    using assms by (intro getAIResponse_failure [of client b fromNick message err status body readErr]) simp
  then obtain err' where g: "getAIResponse client b message fromNick = (b1, [HttpGet url], Inl err')"
    using assms(1-3) by auto
  have "handleMessage orbit client b e = Inr (b1, [HttpGet url])"
    if "e_Arguments e = target # rest" "e_Nick e = fromNick" "fromNick \<noteq> Nick (config b)"
      "shouldRespond (config b) target (e_Message e)"
      "cleanMessage orbit (config b) (e_Message e) = Inr message"
    for e target rest
    using handleMessage_engage [of e target rest b orbit message client b1 "[HttpGet url]" "Inl err'"] that g
    by simp
  with g show ?thesis by blast
qed

theorem C5_witness:
  "shouldRespond (config (NewIRCBot mainConfig)) ''#lobby'' ''SteveBot: hi''
   \<and> cleanMessage latinOrbit (config (NewIRCBot mainConfig)) ''SteveBot: hi'' = Inr ''hi''
   \<and> handleMessage latinOrbit (\<lambda>url. Response 200 ''par'' (Some ''timeout'')) (NewIRCBot mainConfig)
        \<lparr>e_Nick = ''alice'', e_Arguments = [''#lobby'', ''SteveBot: hi''], e_Message = ''SteveBot: hi''\<rparr>
      = Inr ((NewIRCBot mainConfig)\<lparr>bot_context :=
               addToContext (bot_context (NewIRCBot mainConfig)) \<lparr>Role = ''user'', Content = ''alice: hi''\<rparr>\<rparr>,
             [HttpGet (apiUrl (buildPrompt
               (addToContext (bot_context (NewIRCBot mainConfig)) \<lparr>Role = ''user'', Content = ''alice: hi''\<rparr>)))])
   \<and> addToContext (bot_context (NewIRCBot mainConfig)) \<lparr>Role = ''user'', Content = ''alice: hi''\<rparr>
      = [\<lparr>Role = ''system'', Content = Persona mainConfig\<rparr>, \<lparr>Role = ''user'', Content = ''alice: hi''\<rparr>]"
proof -
  have s: "shouldRespond (config (NewIRCBot mainConfig)) ''#lobby'' ''SteveBot: hi''"
    by code_simp
  have c: "cleanMessage latinOrbit (config (NewIRCBot mainConfig)) ''SteveBot: hi'' = Inr ''hi''"
    by code_simp
  have n: "''alice'' \<noteq> Nick (config (NewIRCBot mainConfig))"
    by (simp add: NewIRCBot_def mainConfig_def)
  have a: "addToContext (bot_context (NewIRCBot mainConfig)) \<lparr>Role = ''user'', Content = ''alice: hi''\<rparr>
      = [\<lparr>Role = ''system'', Content = Persona mainConfig\<rparr>, \<lparr>Role = ''user'', Content = ''alice: hi''\<rparr>]"
    by (simp add: NewIRCBot_def mainConfig_def addToContext_def)
  have f: "(\<lambda>url. Response 200 ''par'' (Some ''timeout'')) (apiUrl (buildPrompt (bot_context
        ((NewIRCBot mainConfig)\<lparr>bot_context := addToContext (bot_context (NewIRCBot mainConfig))
           \<lparr>Role = ''user'', Content = ''alice'' @ '': '' @ ''hi''\<rparr>\<rparr>)))) = GetError []
      \<or> ((\<lambda>url. Response 200 ''par'' (Some ''timeout'')) (apiUrl (buildPrompt (bot_context
        ((NewIRCBot mainConfig)\<lparr>bot_context := addToContext (bot_context (NewIRCBot mainConfig))
           \<lparr>Role = ''user'', Content = ''alice'' @ '': '' @ ''hi''\<rparr>\<rparr>)))) = Response 200 ''par'' (Some ''timeout'')
          \<and> ((200::int) \<noteq> 200 \<or> Some ''timeout'' \<noteq> None))"
    by simp
  show ?thesis
    using s c n a C5_failed_generator_call [where orbit = latinOrbit, OF refl refl refl f]
    by simp
qed

section \<open>Cleaning a message\<close>

lemma DecodeRune_width: "1 \<le> snd (DecodeRune (c # cs)) \<and> snd (DecodeRune (c # cs)) \<le> 4"
  by (simp add: Let_def)

lemma runes_bytes: "concat (map snd (runes s)) = s"
proof (induction s rule: runes.induct)
  case 1
  then show ?case by simp
next
  case (2 c cs)
  obtain r w where d: "DecodeRune (c # cs) = (r, w)"
    by (cases "DecodeRune (c # cs)")
  have "concat (map snd (runes (drop (w - 1) cs))) = drop (w - 1) cs"
    using 2 [OF d [symmetric]] by simp
  then show ?case
    using d by simp
qed

lemma dropWhile_run:
  "\<forall>c\<in>set ws. P c \<Longrightarrow> t = [] \<or> \<not> P (hd t) \<Longrightarrow> dropWhile P (ws @ t) = t"
proof (induction ws)
  case Nil
  then show ?case by (cases t) auto
next
  case (Cons w ws)
  then show ?case by simp
qed

lemma matchMention_head:
  assumes "list_all2 (foldEq orbit) nick (map fst n)" and "fst p = 0x2C \<or> fst p = 0x3A"
    and "\<forall>w\<in>set ws. reSpaceToken w" and "rest = [] \<or> \<not> reSpaceToken (hd rest)"
  shows "matchMention orbit nick (n @ p # ws @ rest) = Some rest"
proof -
  define ts where "ts = n @ p # ws @ rest"
  have len: "length n = length nick"
    using assms(1) by (auto dest: list_all2_lengthD)
  have a: "take (length nick) ts = n"
    using len by (simp add: ts_def)
  have b: "ts ! length nick = p"
    using len by (simp add: ts_def nth_append)
  have c: "drop (length nick + 1) ts = ws @ rest"
    using len by (simp add: ts_def)
  have d: "dropWhile reSpaceToken (ws @ rest) = rest"
    using assms(3,4) by (rule dropWhile_run)
  have e: "length nick < length ts"
    using len by (simp add: ts_def)
  have "matchMention orbit nick ts = Some rest"
    using assms(1,2) a b c d e by (simp add: matchMention_def Let_def)
  then show ?thesis
    by (simp only: ts_def)
qed

lemma removeMentions_head:
  assumes "list_all2 (foldEq orbit) nick (map fst n)" and "fst p = 0x2C \<or> fst p = 0x3A"
    and "\<forall>w\<in>set ws. reSpaceToken w" and "rest = [] \<or> \<not> reSpaceToken (hd rest)"
  shows "removeMentions orbit nick (n @ p # ws @ rest) = removeMentions orbit nick rest"
proof -
  obtain t ts where s: "n @ p # ws @ rest = t # ts"
    by (cases "n @ p # ws @ rest") auto
  have "matchMention orbit nick (t # ts) = Some rest"
    using matchMention_head [OF assms] s by simp
  then have "removeMentions orbit nick (t # ts) = removeMentions orbit nick rest"
    by simp
  then show ?thesis
    using s by simp
qed

lemma mentionAt_iff: "mentionAt orbit nick ts \<longleftrightarrow> matchMention orbit nick ts \<noteq> None"
proof
  assume "mentionAt orbit nick ts"
  then obtain n p rest where s: "ts = n @ p # rest"
    and n: "list_all2 (foldEq orbit) nick (map fst n)"
    and p: "fst p = 0x2C \<or> fst p = 0x3A"
    by (auto simp: mentionAt_def)
  have len: "length n = length nick"
    using n by (auto dest: list_all2_lengthD)
  have "take (length nick) ts = n" "ts ! length nick = p" "length nick < length ts"
    using len s by (simp_all add: nth_append)
  then show "matchMention orbit nick ts \<noteq> None"
    using n p by (simp add: matchMention_def Let_def)
next
  assume "matchMention orbit nick ts \<noteq> None"
  then have len: "length nick < length ts"
    and n: "list_all2 (foldEq orbit) nick (map fst (take (length nick) ts))"
    and p: "fst (ts ! length nick) = 0x2C \<or> fst (ts ! length nick) = 0x3A"
    by (auto simp: matchMention_def Let_def split: if_splits)
  have "ts = take (length nick) ts @ ts ! length nick # drop (Suc (length nick)) ts"
    using len by (rule id_take_nth_drop)
  then show "mentionAt orbit nick ts"
    unfolding mentionAt_def using n p by blast
qed

lemma removeMentions_skip:
  "\<not> mentionAt orbit nick (t # ts) \<Longrightarrow>
   removeMentions orbit nick (t # ts) = snd t @ removeMentions orbit nick ts"
  by (simp add: mentionAt_iff)

lemma rev_dropWhile_split:
  "xs = rev (dropWhile P (rev xs)) @ rev (takeWhile P (rev xs))"
proof -
  have "rev (takeWhile P (rev xs) @ dropWhile P (rev xs))
      = rev (dropWhile P (rev xs)) @ rev (takeWhile P (rev xs))"
    by (rule rev_append)
  then show ?thesis
    by (simp only: takeWhile_dropWhile_id rev_rev_ident)
qed

lemma TrimSpace_tokens:
  "\<exists>l m r. runes s = l @ m @ r \<and> TrimSpace s = concat (map snd m)
     \<and> list_all spaceToken l \<and> list_all spaceToken r
     \<and> (m = [] \<or> (\<not> spaceToken (hd m) \<and> \<not> spaceToken (last m)))"
proof -
  let ?d = "dropWhile spaceToken (runes s)"
  let ?l = "takeWhile spaceToken (runes s)"
  let ?e = "dropWhile spaceToken (rev ?d)"
  let ?m = "rev ?e"
  let ?r = "rev (takeWhile spaceToken (rev ?d))"
  have d: "?d = ?m @ ?r"
    by (rule rev_dropWhile_split)
  have "runes s = ?l @ ?d"
    by simp
  then have split: "runes s = ?l @ ?m @ ?r"
    using d by simp
  have trim: "TrimSpace s = concat (map snd ?m)"
    by (simp add: TrimSpace_def)
  have l: "list_all spaceToken ?l"
    by (auto simp: list_all_iff dest: set_takeWhileD)
  have r: "list_all spaceToken ?r"
    by (auto simp: list_all_iff dest: set_takeWhileD)
  have ends: "?m = [] \<or> (\<not> spaceToken (hd ?m) \<and> \<not> spaceToken (last ?m))"
  proof (cases "?e = []")
    case True
    then show ?thesis by simp
  next
    case False
    then have "\<not> spaceToken (hd ?e)"
      by (rule hd_dropWhile)
    then have last: "\<not> spaceToken (last ?m)"
      using False by (simp add: last_rev)
    have m: "?m \<noteq> []"
      using False by simp
    have "?d \<noteq> []"
    proof
      assume "?d = []"
      then have "?m @ ?r = []"
        using d by (simp only:)
      then show False
        using m by simp
    qed
    then have "\<not> spaceToken (hd ?d)"
      by (rule hd_dropWhile)
    moreover have "hd ?d = hd ?m"
      using d m by (metis hd_append2)
    ultimately show ?thesis
      using last by simp
  qed
  show ?thesis
    using split trim l r ends by blast
qed

lemma cleanMessage_invalid_nick:
  "\<not> validPattern (Nick cfg) \<Longrightarrow> cleanMessage orbit cfg message = Inl InvalidUTF8"
  by (simp add: cleanMessage_def)

lemma cleanMessage_valid_nick:
  "validPattern (Nick cfg) \<Longrightarrow>
   cleanMessage orbit cfg message =
     Inr (if TrimSpace (removeMentions orbit (map fst (runes (Nick cfg))) (runes message)) = []
          then ''Hello!''
          else TrimSpace (removeMentions orbit (map fst (runes (Nick cfg))) (runes message)))"
  by (simp add: cleanMessage_def Let_def)

lemma cleanMessage_nonempty: "cleanMessage orbit cfg message \<noteq> Inr []"
  by (simp add: cleanMessage_def Let_def)

text \<open>
  Outside ASCII: the long s U+017F is a case of \<open>s\<close>, so \<open>(?i)Steve\<close> matches at it; the
  no-break space U+00A0 is trimmed; a byte that is not UTF-8 is kept in the text; a
  nick that is not UTF-8 makes \<open>regexp.MustCompile\<close> panic.
\<close>

lemma cleanMessage_outside_ascii:
  "cleanMessage latinOrbit steveConfig ([CHR 0xC5, CHR 0xBF] @ ''teve: hi'') = Inr ''hi''
   \<and> cleanMessage latinOrbit steveConfig (''Steve:'' @ [CHR 0xC2, CHR 0xA0]) = Inr ''Hello!''
   \<and> cleanMessage latinOrbit steveConfig (''Steve: '' @ [CHR 0xFF] @ '' hi '') = Inr ([CHR 0xFF] @ '' hi'')
   \<and> cleanMessage latinOrbit (steveConfig\<lparr>Nick := [CHR 0xFF]\<rparr>) ''hi'' = Inl InvalidUTF8"
  by code_simp

text \<open>
  C8. For a nick that is valid UTF-8 (for any other nick \<open>regexp.MustCompile\<close> panics,
  \<open>cleanMessage_invalid_nick\<close>) \<open>cleanMessage\<close> deletes the mentions of the nick from
  left to right, trims the result and returns \<open>"Hello!"\<close> when nothing is left; its
  result is never empty. The deletion is fixed by three equations on the runes of
  the message: nothing is deleted from the empty text; where the text starts with
  runes that are the runes of the nick up to case, then \<open>,\<close> or \<open>:\<close>, then a maximal run
  \<open>ws\<close> of whitespace, all of that is deleted and the scan goes on behind it; where the
  text does not start with such a mention the bytes of its first rune are kept. The
  runes of a text hold all its bytes in order. Trimming takes away only runes that
  are spaces, at both ends, and leaves none there. The two examples of the
  specification, for the nick \<open>Steve\<close>.
\<close>

theorem C8_cleanMessage:
  "(validPattern (Nick cfg) \<longrightarrow>
      cleanMessage orbit cfg message =
        Inr (if TrimSpace (removeMentions orbit (map fst (runes (Nick cfg))) (runes message)) = []
             then ''Hello!''
             else TrimSpace (removeMentions orbit (map fst (runes (Nick cfg))) (runes message))))
   \<and> cleanMessage orbit cfg message \<noteq> Inr []
   \<and> removeMentions orbit nick [] = []
   \<and> (list_all2 (foldEq orbit) nick (map fst n) \<and> (fst p = 0x2C \<or> fst p = 0x3A)
        \<and> (\<forall>w\<in>set ws. reSpaceToken w) \<and> (rest = [] \<or> \<not> reSpaceToken (hd rest))
      \<longrightarrow> removeMentions orbit nick (n @ p # ws @ rest) = removeMentions orbit nick rest)
   \<and> (\<not> mentionAt orbit nick (t # ts)
      \<longrightarrow> removeMentions orbit nick (t # ts) = snd t @ removeMentions orbit nick ts)
   \<and> concat (map snd (runes s)) = s
   \<and> (\<exists>l m r. runes s = l @ m @ r \<and> TrimSpace s = concat (map snd m)
        \<and> list_all spaceToken l \<and> list_all spaceToken r
        \<and> (m = [] \<or> (\<not> spaceToken (hd m) \<and> \<not> spaceToken (last m))))
   \<and> cleanMessage orbit steveConfig ''Steve: hello there'' = Inr ''hello there''
   \<and> cleanMessage orbit steveConfig ''Steve,'' = Inr ''Hello!''"
proof -
  have "cleanMessage orbit steveConfig ''Steve: hello there'' = Inr ''hello there''"
    by code_simp
  moreover have "cleanMessage orbit steveConfig ''Steve,'' = Inr ''Hello!''"
    by code_simp
  moreover have "removeMentions orbit nick [] = []"
    by simp
  ultimately show ?thesis
    using cleanMessage_valid_nick [of cfg orbit message] cleanMessage_nonempty [of orbit cfg message]
      removeMentions_head [of orbit nick n p ws rest] removeMentions_skip [of orbit nick t ts]
      runes_bytes [of s] TrimSpace_tokens [of s]
    by blast
qed

theorem C8_witness:
  "validPattern (Nick steveConfig)
   \<and> cleanMessage latinOrbit steveConfig ''hi STEVE:  '' = Inr ''hi''
   \<and> list_all2 (foldEq latinOrbit) (map fst (runes ''Steve'')) (map fst (runes ''STEVE''))
   \<and> reSpaceToken (0x20, '' '') \<and> \<not> reSpaceToken (hd (runes ''hi''))
   \<and> removeMentions latinOrbit (map fst (runes ''Steve'')) (runes ''STEVE'' @ (0x3A, '':'') # [(0x20, '' '')] @ runes ''hi'')
       = removeMentions latinOrbit (map fst (runes ''Steve'')) (runes ''hi'')
   \<and> \<not> mentionAt latinOrbit (map fst (runes ''Steve'')) ((0x68, ''h'') # [(0x69, ''i'')])
   \<and> removeMentions latinOrbit (map fst (runes ''Steve'')) ((0x68, ''h'') # [(0x69, ''i'')])
       = snd (0x68 :: int, ''h'') @ removeMentions latinOrbit (map fst (runes ''Steve'')) [(0x69, ''i'')]"
proof -
  have v: "validPattern (Nick steveConfig)"
    by code_simp
  have c: "cleanMessage latinOrbit steveConfig ''hi STEVE:  '' = Inr ''hi''"
    by code_simp
  have l: "list_all2 (foldEq latinOrbit) (map fst (runes ''Steve'')) (map fst (runes ''STEVE''))"
    by code_simp
  have w: "\<forall>w\<in>set [(0x20 :: int, '' '')]. reSpaceToken w" and w1: "reSpaceToken (0x20, '' '')"
    by (simp_all add: reSpaceToken_def)
  have h1: "\<not> reSpaceToken (hd (runes ''hi''))"
    by code_simp
  have m: "\<not> mentionAt latinOrbit (map fst (runes ''Steve'')) ((0x68, ''h'') # [(0x69, ''i'')])"
    unfolding mentionAt_iff by code_simp
  show ?thesis
    using v c l w w1 h1 m
      C8_cleanMessage [of steveConfig latinOrbit "''hi STEVE:  ''" "map fst (runes ''Steve'')"
        "runes ''STEVE''" "(0x3A, '':'')" "[(0x20, '' '')]" "runes ''hi''" "(0x68, ''h'')" "[(0x69, ''i'')]" "[]"]
    by simp
qed

end
